theory Spec2Isabelle
  imports Main
begin

section \<open>Shallow embedding of \<open>src/main.py\<close>\<close>

subsection \<open>Exceptions and results\<close>

text \<open>
  \<open>PrerequisiteError\<close> is the \<open>Exception("Not all required subtasks are complete")\<close> raised
  by \<open>Todo.mark_complete\<close>. \<open>AttributeError\<close> is what Python raises when a method is looked
  up on an object that has none of that name. \<open>RecursionError\<close> is what Python raises when
  nested calls exceed the interpreter's depth limit.
\<close>

datatype error = PrerequisiteError | AttributeError | RecursionError

datatype 'a outcome = Return 'a | Raise error

subsection \<open>The random source\<close>

text \<open>
  The global generator of module \<open>random\<close> is an explicit state: an infinite stream of raw
  draws, of which every call of \<open>random.randint\<close> consumes the head. \<open>randint a b\<close> maps
  the raw draw into the inclusive range \<open>[a, b]\<close>; every call site of the source has
  \<open>a \<le> b\<close>.
\<close>

type_synonym rng = "nat \<Rightarrow> nat"

definition randint :: "int \<Rightarrow> int \<Rightarrow> rng \<Rightarrow> int \<times> rng" where
  "randint a b g = (a + int (g 0 mod nat (b - a + 1)), \<lambda>i. g (Suc i))"

subsection \<open>Generators\<close>

type_synonym quality_generator = "string \<Rightarrow> int"
type_synonym difficulty_generator = "string \<Rightarrow> int"
type_synonym suggestion_generator = "string \<Rightarrow> string"

definition TestQualityGenerator :: quality_generator where
  "TestQualityGenerator description = 42"

definition TestDifficultyGenerator :: difficulty_generator where
  "TestDifficultyGenerator description = 50"

definition SimpleSuggestionGenerator :: suggestion_generator where
  "SimpleSuggestionGenerator description = description @ '' (updated)''"

subsection \<open>Rewards, pools and boxes\<close>

text \<open>
  Class \<open>Reward\<close> with its subclass \<open>Key\<close>. The fields \<open>value\<close> and \<open>description\<close> of a
  reward are \<open>value_r\<close> and \<open>description_r\<close> here. \<open>Key.activate\<close> does nothing.
\<close>

record reward =
  value_r :: int
  description_r :: string

record key = reward +
  key_name :: string

text \<open>
  What the attribute \<open>pool\<close> of a \<open>Box\<close> can hold: a \<open>RandomPool\<close> (the only concrete
  \<open>Pool\<close>), or, as the constructor of \<open>LootBox\<close> passes it, a plain list of rewards, an
  object without a method \<open>select_reward\<close>.
\<close>

datatype 'r pool = RandomPool (rewards: "'r list") | ListObj "'r list"

fun select_reward :: "'r pool \<Rightarrow> rng \<Rightarrow> 'r option outcome \<times> rng" where
  "select_reward (RandomPool rs) g =
     (if rs \<noteq> [] then
        (let (index, g') = randint 0 (int (length rs) - 1) g
         in (Return (Some (rs ! nat index)), g'))
      else (Return None, g))"
| "select_reward (ListObj xs) g = (Raise AttributeError, g)"

record 'r box =
  pool_size :: int
  pool :: "'r pool"

text \<open>
  The \<open>while\<close> loop of \<open>Box.get_reward_pool\<close>, with the list \<open>reward_pool\<close> built so far.
  The loop has no bound: \<open>None\<close> is the run that never leaves it.
\<close>

partial_function (option) get_reward_pool_loop ::
  "('a reward_scheme, 'b) box_scheme \<Rightarrow> int \<Rightarrow> 'a reward_scheme list \<Rightarrow> rng
     \<Rightarrow> ('a reward_scheme list outcome \<times> rng) option" where
  "get_reward_pool_loop self modifier reward_pool g =
     (if int (length reward_pool) < pool_size self then
        (case select_reward (pool self) g of
           (Raise e, g1) \<Rightarrow> Some (Raise e, g1)
         | (Return None, g1) \<Rightarrow> get_reward_pool_loop self modifier reward_pool g1
         | (Return (Some reward), g1) \<Rightarrow>
             (let (roll, g2) = randint 1 1000 g1; chance = roll + modifier
              in if chance \<ge> value_r reward
                 then get_reward_pool_loop self modifier (reward_pool @ [reward]) g2
                 else get_reward_pool_loop self modifier reward_pool g2))
      else Some (Return reward_pool, g))"

definition get_reward_pool ::
  "('a reward_scheme, 'b) box_scheme \<Rightarrow> int \<Rightarrow> rng
     \<Rightarrow> ('a reward_scheme list outcome \<times> rng) option" where
  "get_reward_pool self modifier g = get_reward_pool_loop self modifier [] g"

text \<open>Class \<open>LootBox\<close>; its field \<open>key_name\<close> is \<open>key_name_b\<close> here.\<close>

record 'r lootbox = "'r box" +
  name :: string
  key_name_b :: string

definition LootBox_init :: "string \<Rightarrow> string \<Rightarrow> int \<Rightarrow> 'r list \<Rightarrow> 'r lootbox" where
  "LootBox_init nm kn psize rs =
     \<lparr>pool_size = psize, pool = ListObj rs, name = nm, key_name_b = kn\<rparr>"

text \<open>
  \<open>LootBox.open_box\<close> returns the list of \<open>get_reward_pool()\<close>, or Python's \<open>None\<close>
  (here \<open>Return None\<close>) when the key does not fit.
\<close>

definition open_box ::
  "('a reward_scheme, 'b) lootbox_scheme \<Rightarrow> 'c key_scheme \<Rightarrow> rng
     \<Rightarrow> ('a reward_scheme list option outcome \<times> rng) option" where
  "open_box self k g =
     (if key_name k = key_name_b self then
        (case get_reward_pool self 0 g of
           None \<Rightarrow> None
         | Some (Return rs, g') \<Rightarrow> Some (Return (Some rs), g')
         | Some (Raise e, g') \<Rightarrow> Some (Raise e, g'))
      else Some (Return None, g))"

subsection \<open>Todos\<close>

text \<open>
  A \<open>Todo\<close> is a mutable object, and its subtask lists hold references to other such
  objects, which may be shared: the objects live in a store, addressed by \<open>ref\<close>.
\<close>

type_synonym ref = nat
type_synonym datetime = int

record todo =
  description :: string
  importance :: int
  difficulty :: int
  quality :: int
  due_datetime :: "datetime option"
  completed :: bool
  required_subtasks :: "ref list"
  optional_subtasks :: "ref list"
  modify_score_function :: "(int \<Rightarrow> int) option"

type_synonym heap = "ref \<Rightarrow> todo"

text \<open>
  \<open>Todo.__init__\<close>. An argument left out or passed as \<open>None\<close> is \<open>None\<close>; a generator is
  its method.
\<close>

definition Todo_init ::
  "string \<Rightarrow> int \<Rightarrow> int option \<Rightarrow> int option \<Rightarrow> datetime option \<Rightarrow> quality_generator option
     \<Rightarrow> difficulty_generator option \<Rightarrow> (int \<Rightarrow> int) option \<Rightarrow> todo" where
  "Todo_init descr imp diff qual due qgen dgen msf =
     \<lparr>description = descr,
      importance = imp,
      difficulty = (case diff of Some d \<Rightarrow> d
                    | None \<Rightarrow> (case dgen of Some gen \<Rightarrow> gen descr | None \<Rightarrow> 1)),
      quality = (case qual of Some q \<Rightarrow> q
                 | None \<Rightarrow> (case qgen of Some gen \<Rightarrow> gen descr | None \<Rightarrow> 0)),
      due_datetime = due,
      completed = False,
      required_subtasks = [],
      optional_subtasks = [],
      modify_score_function = msf\<rparr>"

definition add_subtask :: "ref \<Rightarrow> ref \<Rightarrow> bool \<Rightarrow> heap \<Rightarrow> heap" where
  "add_subtask self subtask required h =
     (if required
      then h(self := (h self)\<lparr>required_subtasks := required_subtasks (h self) @ [subtask]\<rparr>)
      else h(self := (h self)\<lparr>optional_subtasks := optional_subtasks (h self) @ [subtask]\<rparr>))"

text \<open>A \<open>for\<close> loop over a list of objects; an exception raised by the body leaves the loop.\<close>

fun for_each ::
  "('a \<Rightarrow> heap \<Rightarrow> unit outcome \<times> heap) \<Rightarrow> 'a list \<Rightarrow> heap \<Rightarrow> unit outcome \<times> heap" where
  "for_each body [] h = (Return (), h)"
| "for_each body (x # xs) h =
     (case body x h of
        (Return u, h') \<Rightarrow> for_each body xs h'
      | (Raise e, h') \<Rightarrow> (Raise e, h'))"

text \<open>\<open>Todo._complete_subtasks\<close>, given the method \<open>mark_complete\<close> it calls on each subtask.\<close>

definition complete_subtasks ::
  "(ref \<Rightarrow> heap \<Rightarrow> unit outcome \<times> heap) \<Rightarrow> ref \<Rightarrow> heap \<Rightarrow> unit outcome \<times> heap" where
  "complete_subtasks mark self h =
     (case for_each mark (required_subtasks (h self)) h of
        (Raise e, h1) \<Rightarrow> (Raise e, h1)
      | (Return u, h1) \<Rightarrow> for_each mark (optional_subtasks (h1 self)) h1)"

text \<open>
  \<open>Todo.mark_complete\<close>. The first argument is the number of nested calls of
  \<open>mark_complete\<close> the interpreter still admits. The result carries the store as the call
  leaves it, also when it raises.
\<close>

primrec mark_complete :: "nat \<Rightarrow> ref \<Rightarrow> heap \<Rightarrow> unit outcome \<times> heap" where
  "mark_complete 0 self h = (Raise RecursionError, h)"
| "mark_complete (Suc depth) self h =
     (if list_all (\<lambda>subtask. completed (h subtask)) (required_subtasks (h self)) then
        complete_subtasks (mark_complete depth) self (h(self := (h self)\<lparr>completed := True\<rparr>))
      else (Raise PrerequisiteError, h))"

subsection \<open>Task creation\<close>

definition add_todo :: "todo list \<Rightarrow> todo \<Rightarrow> todo list" where
  "add_todo todos t = todos @ [t]"

text \<open>
  \<open>SimpleTaskCreationStrategy.create_task\<close>. The list \<open>todos\<close> holds the objects themselves:
  \<open>create_task\<close> changes none of them after its construction. The first argument is the
  number of nested invocations of \<open>create_task\<close> the interpreter still admits. The list is
  the caller's and outlives the call: the first component of the result is the list as the
  call leaves it, also when the call raises, and also when it never returns, caught in the
  loop of a box; the second component is \<open>None\<close> in that last case, and else what the call
  returns or raises, with the random source. The calls of \<open>print\<close> are left out.
\<close>

primrec create_task ::
  "nat \<Rightarrow> todo list \<Rightarrow> string \<Rightarrow> int \<Rightarrow> difficulty_generator option \<Rightarrow> quality_generator option
     \<Rightarrow> suggestion_generator \<Rightarrow> ('a reward_scheme, 'b) box_scheme
     \<Rightarrow> ('a reward_scheme, 'c) box_scheme \<Rightarrow> rng
     \<Rightarrow> todo list \<times> ('a reward_scheme option outcome \<times> rng) option" where
  "create_task 0 todos descr imp dgen qgen sgen reward_box punishment_box g =
     (todos, Some (Raise RecursionError, g))"
| "create_task (Suc depth) todos descr imp dgen qgen sgen reward_box punishment_box g =
     (let new_todo = Todo_init descr imp None None None qgen dgen None;
          todos1 = add_todo todos new_todo;
          modifier = quality new_todo * (11 - imp)
      in if modifier > 0 then
           (case get_reward_pool reward_box modifier g of
              None \<Rightarrow> (todos1, None)
            | Some (Raise e, g1) \<Rightarrow> (todos1, Some (Raise e, g1))
            | Some (Return rs, g1) \<Rightarrow>
                if rs \<noteq> [] then
                  (case select_reward (RandomPool rs) g1 of
                     (Raise e, g2) \<Rightarrow> (todos1, Some (Raise e, g2))
                   | (Return reward, g2) \<Rightarrow> (todos1, Some (Return reward, g2)))
                else (todos1, Some (Return None, g1)))
         else
           (let (random_chance, g1) = randint 1 10 g
            in if random_chance \<ge> imp then
                 (case get_reward_pool punishment_box modifier g1 of
                    None \<Rightarrow> (todos1, None)
                  | Some (Raise e, g2) \<Rightarrow> (todos1, Some (Raise e, g2))
                  | Some (Return rs, g2) \<Rightarrow>
                      (case select_reward (RandomPool rs) g2 of
                         (Raise e, g3) \<Rightarrow> (todos1, Some (Raise e, g3))
                       | (Return reward, g3) \<Rightarrow>
                           if rs \<noteq> [] then (todos1, Some (Return reward, g3))
                           else (todos1, Some (Return None, g3))))
               else create_task depth todos1 (sgen descr) imp dgen qgen sgen
                      reward_box punishment_box g1))"

subsection \<open>The objects of the example run of the source\<close>

definition reward1 :: key where
  "reward1 = \<lparr>value_r = 100, description_r = ''Reward Key 1'', key_name = ''reward_key_1''\<rparr>"

definition reward2 :: key where
  "reward2 = \<lparr>value_r = 200, description_r = ''Reward Key 2'', key_name = ''reward_key_2''\<rparr>"

definition reward3 :: key where
  "reward3 = \<lparr>value_r = 300, description_r = ''Reward Key 3'', key_name = ''reward_key_3''\<rparr>"

definition punishment1 :: key where
  "punishment1 =
     \<lparr>value_r = 50, description_r = ''Punishment Key 1'', key_name = ''punishment_key_1''\<rparr>"

definition punishment2 :: key where
  "punishment2 =
     \<lparr>value_r = 100, description_r = ''Punishment Key 2'', key_name = ''punishment_key_2''\<rparr>"

definition punishment3 :: key where
  "punishment3 =
     \<lparr>value_r = 150, description_r = ''Punishment Key 3'', key_name = ''punishment_key_3''\<rparr>"

definition reward_box :: "key box" where
  "reward_box = \<lparr>pool_size = 3, pool = RandomPool [reward1, reward2, reward3]\<rparr>"

definition punishment_box :: "key box" where
  "punishment_box = \<lparr>pool_size = 3, pool = RandomPool [punishment1, punishment2, punishment3]\<rparr>"

text \<open>A random source whose every raw draw is \<open>c\<close>: \<open>randint 1 1000\<close> is then \<open>c mod 1000 + 1\<close>.\<close>

definition constant_rng :: "nat \<Rightarrow> rng" where
  "constant_rng c = (\<lambda>i. c)"

text \<open>Further objects for the examples below.\<close>

definition chest :: "key lootbox" where
  "chest = \<lparr>pool_size = 1, pool = RandomPool [reward1],
            name = ''chest'', key_name_b = ''reward_key_1''\<rparr>"

definition unreachable_box :: "key box" where
  "unreachable_box =
     \<lparr>pool_size = 1,
      pool = RandomPool [\<lparr>value_r = 1001, description_r = ''Crown'', key_name = ''crown''\<rparr>]\<rparr>"

definition vault :: "key box" where
  "vault =
     \<lparr>pool_size = 1,
      pool = RandomPool [\<lparr>value_r = 5000, description_r = ''Vault Key'', key_name = ''vault''\<rparr>]\<rparr>"

subsection \<open>Notions used to state the properties\<close>

text \<open>The random source after \<open>n\<close> draws have been consumed.\<close>

definition draws_from :: "rng \<Rightarrow> nat \<Rightarrow> rng" where
  "draws_from g n = (\<lambda>i. g (i + n))"

text \<open>
  A box, a modifier and an accumulated list from which the loop of \<open>get_reward_pool\<close> can
  accept nothing more although it still has to.
\<close>

definition hopeless ::
  "('a reward_scheme, 'b) box_scheme \<Rightarrow> int \<Rightarrow> 'a reward_scheme list \<Rightarrow> bool" where
  "hopeless self modifier acc \<longleftrightarrow>
     int (length acc) < pool_size self
     \<and> (\<exists>rs. pool self = RandomPool rs \<and> rs \<noteq> [] \<and> (\<forall>r\<in>set rs. 1000 + modifier < value_r r))"

text \<open>
  Over a non-empty \<open>RandomPool\<close> every iteration of the loop of \<open>get_reward_pool\<close> consumes
  two draws, one in \<open>select_reward\<close> and one for the acceptance roll. Iteration \<open>j\<close>
  (counted from 0) of a run that starts on the random source \<open>g\<close> therefore sees the
  candidate \<open>candidate_at p g j\<close> and the roll \<open>roll_at g j\<close>, and accepts the candidate when
  \<open>accepted_at p modifier g j\<close>.
\<close>

definition candidate_at :: "'r pool \<Rightarrow> rng \<Rightarrow> nat \<Rightarrow> 'r option outcome" where
  "candidate_at p g j = fst (select_reward p (draws_from g (2 * j)))"

definition roll_at :: "rng \<Rightarrow> nat \<Rightarrow> int" where
  "roll_at g j = fst (randint 1 1000 (draws_from g (2 * j + 1)))"

definition accepted_at :: "'a reward_scheme pool \<Rightarrow> int \<Rightarrow> rng \<Rightarrow> nat \<Rightarrow> bool" where
  "accepted_at p modifier g j =
     (case candidate_at p g j of
        Return (Some reward) \<Rightarrow> roll_at g j + modifier \<ge> value_r reward
      | _ \<Rightarrow> False)"

definition accepted_upto ::
  "'a reward_scheme pool \<Rightarrow> int \<Rightarrow> rng \<Rightarrow> nat \<Rightarrow> 'a reward_scheme option outcome list" where
  "accepted_upto p modifier g T = map (candidate_at p g) (filter (accepted_at p modifier g) [0..<T])"

text \<open>What the loop returns when it is entered with the list \<open>acc\<close> on the random source \<open>g\<close>.\<close>

definition loop_result ::
  "('a reward_scheme, 'b) box_scheme \<Rightarrow> int \<Rightarrow> 'a reward_scheme list \<Rightarrow> rng
     \<Rightarrow> ('a reward_scheme list outcome \<times> rng) \<Rightarrow> bool" where
  "loop_result self modifier acc g res \<longleftrightarrow>
     (\<forall>rs. pool self = RandomPool rs \<and> rs \<noteq> [] \<longrightarrow>
        (\<exists>xs T. res = (Return (acc @ xs), draws_from g (2 * T))
           \<and> length (acc @ xs) = max (length acc) (nat (pool_size self))
           \<and> set xs \<subseteq> set rs
           \<and> map (\<lambda>r. Return (Some r)) xs = accepted_upto (pool self) modifier g T))"

definition empty_box :: "key box" where
  "empty_box = \<lparr>pool_size = 1, pool = RandomPool []\<rparr>"

text \<open>
  Stores that differ at most in \<open>completed\<close> flags that the second has set, the relation
  between a Todo and its direct subtasks, and a condition under which \<open>mark_complete\<close>
  succeeds within \<open>depth\<close> nested calls: the Todo and every Todo below it has all its
  required subtasks completed.
\<close>

definition only_completes :: "heap \<Rightarrow> heap \<Rightarrow> bool" where
  "only_completes h h' \<longleftrightarrow> (\<forall>a. h' a = h a \<or> h' a = (h a)\<lparr>completed := True\<rparr>)"

definition subtask_rel :: "heap \<Rightarrow> (ref \<times> ref) set" where
  "subtask_rel h = {(a, b). b \<in> set (required_subtasks (h a)) \<union> set (optional_subtasks (h a))}"

primrec completable :: "nat \<Rightarrow> heap \<Rightarrow> ref \<Rightarrow> bool" where
  "completable 0 h self = False"
| "completable (Suc depth) h self =
     (list_all (\<lambda>subtask. completed (h subtask)) (required_subtasks (h self))
      \<and> list_all (completable depth h) (required_subtasks (h self) @ optional_subtasks (h self)))"

text \<open>
  Three Todos built by the constructor: Todo 0 has the optional subtask 1, which has the
  required subtask 2. In \<open>reopened\<close>, Todo 0 was completed and then given the required
  subtask 1. In \<open>household\<close>, Todo 0 has the required subtask 1, completed already, and
  the optional subtask 2.
\<close>

definition blank :: heap where
  "blank = (\<lambda>a. Todo_init ''task'' 1 None None None None None None)"

definition family :: heap where
  "family = add_subtask 1 2 True (add_subtask 0 1 False blank)"

definition reopened :: heap where
  "reopened = add_subtask 0 1 True (blank(0 := (blank 0)\<lparr>completed := True\<rparr>))"

definition household :: heap where
  "household =
     add_subtask 0 2 False (add_subtask 0 1 True (blank(1 := (blank 1)\<lparr>completed := True\<rparr>)))"

text \<open>
  The Todo that an invocation of \<open>create_task\<close> constructs and appends, the modifier it
  computes from it, and the number of invocations of \<open>create_task\<close> that a call makes
  within \<open>depth\<close> nested invocations, itself included.
\<close>

definition fresh_todo ::
  "string \<Rightarrow> int \<Rightarrow> difficulty_generator option \<Rightarrow> quality_generator option \<Rightarrow> todo" where
  "fresh_todo descr imp dgen qgen = Todo_init descr imp None None None qgen dgen None"

definition modifier_of ::
  "string \<Rightarrow> int \<Rightarrow> difficulty_generator option \<Rightarrow> quality_generator option \<Rightarrow> int" where
  "modifier_of descr imp dgen qgen = quality (fresh_todo descr imp dgen qgen) * (11 - imp)"

primrec invocations ::
  "nat \<Rightarrow> string \<Rightarrow> int \<Rightarrow> difficulty_generator option \<Rightarrow> quality_generator option
     \<Rightarrow> suggestion_generator \<Rightarrow> rng \<Rightarrow> nat" where
  "invocations 0 descr imp dgen qgen sgen g = 0"
| "invocations (Suc depth) descr imp dgen qgen sgen g =
     (if modifier_of descr imp dgen qgen > 0 then 1
      else (let (random_chance, g1) = randint 1 10 g
            in if random_chance \<ge> imp then 1
               else 1 + invocations depth (sgen descr) imp dgen qgen sgen g1))"

text \<open>The rewards of a returned list come from the list accumulated so far or from the pool.\<close>

definition from_pool ::
  "('a reward_scheme, 'b) box_scheme \<Rightarrow> 'a reward_scheme list \<Rightarrow> 'a reward_scheme list outcome \<times> rng
     \<Rightarrow> bool" where
  "from_pool self acc res \<longleftrightarrow>
     (\<forall>xs g'. res = (Return xs, g') \<longrightarrow>
        set xs \<subseteq> set acc \<union> {r. \<exists>prs. pool self = RandomPool prs \<and> r \<in> set prs})"

section \<open>Properties\<close>

subsection \<open>The random source and the pools\<close>

lemma randint_range:
  assumes "a \<le> b"
  shows "a \<le> fst (randint a b g) \<and> fst (randint a b g) \<le> b"
proof -
  have "0 < nat (b - a + 1)" using assms by simp
  then have "g 0 mod nat (b - a + 1) < nat (b - a + 1)" by (rule mod_less_divisor)
  then have "int (g 0 mod nat (b - a + 1)) < b - a + 1" using assms by linarith
  then show ?thesis by (simp add: randint_def)
qed

lemma randint_rng: "snd (randint a b g) = draws_from g 1"
  by (simp add: randint_def draws_from_def)

lemma draws_from_0: "draws_from g 0 = g"
  by (simp add: draws_from_def)

lemma draws_from_add: "draws_from (draws_from g m) n = draws_from g (m + n)"
  by (simp add: draws_from_def ac_simps)

lemma draws_from_constant: "draws_from (constant_rng c) n = constant_rng c"
  by (simp add: draws_from_def constant_rng_def)

lemma select_reward_RandomPool:
  assumes "rs \<noteq> []"
  shows "select_reward (RandomPool rs) g =
           (Return (Some (rs ! (g 0 mod length rs))), draws_from g 1)"
proof -
  have "nat (int (length rs) - 1 - 0 + 1) = length rs" by simp
  then show ?thesis using assms
    by (simp add: randint_def draws_from_def)
qed

subsection \<open>The constructor of a Todo\<close>

text \<open>
  C9. \<open>Todo.__init__\<close> fixes \<open>difficulty\<close> and \<open>quality\<close> once, by precedence: a value
  passed explicitly, else what the generator returns for the description, else the
  default (1 for the difficulty, 0 for the quality). With an explicit value the generator
  has no part in the object built.
\<close>

theorem Todo_init_precedence:
  "difficulty (Todo_init descr imp (Some d) qual due qgen dgen msf) = d
   \<and> difficulty (Todo_init descr imp None qual due qgen (Some gen) msf) = gen descr
   \<and> difficulty (Todo_init descr imp None qual due qgen None msf) = 1
   \<and> quality (Todo_init descr imp diff (Some q) due qgen dgen msf) = q
   \<and> quality (Todo_init descr imp diff None due (Some gen') dgen msf) = gen' descr
   \<and> quality (Todo_init descr imp diff None due None dgen msf) = 0
   \<and> Todo_init descr imp (Some d) qual due qgen dgen msf
       = Todo_init descr imp (Some d) qual due qgen dgen' msf
   \<and> Todo_init descr imp diff (Some q) due qgen dgen msf
       = Todo_init descr imp diff (Some q) due qgen' dgen msf"
  by (simp add: Todo_init_def)

subsection \<open>Opening a loot box\<close>

lemma get_reward_pool_chest:
  "get_reward_pool chest 0 (constant_rng 499) = Some (Return [reward1], constant_rng 499)"
  by (simp add: get_reward_pool_def chest_def reward1_def get_reward_pool_loop.simps
      randint_def constant_rng_def)

text \<open>
  C4. \<open>open_box\<close> compares the two key names for equality. When they differ it returns
  \<open>None\<close>, which is not the empty list, and leaves the random source as it was; when they
  are equal its result is that of \<open>get_reward_pool\<close> with modifier 0.
\<close>

theorem open_box_key_check:
  "(key_name k \<noteq> key_name_b self \<longrightarrow>
      open_box self k g = Some (Return None, g)
      \<and> (Return None :: 'a reward_scheme list option outcome) \<noteq> Return (Some []))
   \<and> (key_name k = key_name_b self \<longrightarrow>
      open_box (self :: ('a reward_scheme, 'b) lootbox_scheme) k g =
        map_option
          (\<lambda>(res, g'). (case res of Return rs \<Rightarrow> Return (Some rs) | Raise e \<Rightarrow> Raise e, g'))
          (get_reward_pool self 0 g))"
  by (auto simp: open_box_def split: option.splits outcome.splits)

theorem open_box_key_check_witness:
  "open_box chest reward2 (constant_rng 499) = Some (Return None, constant_rng 499)
   \<and> open_box chest reward1 (constant_rng 499) = Some (Return (Some [reward1]), constant_rng 499)"
proof -
  have differ: "key_name reward2 \<noteq> key_name_b chest"
    by (simp add: reward2_def chest_def)
  have equal: "key_name reward1 = key_name_b chest"
    by (simp add: reward1_def chest_def)
  from differ open_box_key_check [of reward2 chest "constant_rng 499"]
  have "open_box chest reward2 (constant_rng 499) = Some (Return None, constant_rng 499)"
    by blast
  moreover from equal open_box_key_check [of reward1 chest "constant_rng 499"]
  have "open_box chest reward1 (constant_rng 499)
          = Some (Return (Some [reward1]), constant_rng 499)"
    by (simp add: get_reward_pool_chest)
  ultimately show ?thesis by simp
qed

subsection \<open>The loop of a box that can accept nothing\<close>

lemma loop_never:
  assumes "get_reward_pool_loop self modifier acc g = Some y"
  shows "\<not> hopeless self modifier acc"
proof (rule get_reward_pool_loop.raw_induct
    [where P = "\<lambda>self modifier acc g y. \<not> hopeless self modifier acc", OF _ assms])
  fix loop :: "('a reward_scheme, 'b) box_scheme \<Rightarrow> int \<Rightarrow> 'a reward_scheme list \<Rightarrow> rng
     \<Rightarrow> ('a reward_scheme list outcome \<times> rng) option"
  fix self modifier acc g y
  assume IH: "\<And>self modifier acc g y. loop self modifier acc g = Some y
                 \<Longrightarrow> \<not> hopeless self modifier acc"
  assume step: "(if int (length acc) < pool_size self then
        (case select_reward (pool self) g of
           (Return None, g1) \<Rightarrow> loop self modifier acc g1
         | (Return (Some reward), g1) \<Rightarrow>
             (let (roll, g2) = randint 1 1000 g1; chance = roll + modifier
              in if chance \<ge> value_r reward
                 then loop self modifier (acc @ [reward]) g2
                 else loop self modifier acc g2)
         | (Raise e, g1) \<Rightarrow> Some (Raise e, g1))
      else Some (Return acc, g)) = Some y"
  show "\<not> hopeless self modifier acc"
  proof
    assume inv: "hopeless self modifier acc"
    then obtain rs where rs: "pool self = RandomPool rs" "rs \<noteq> []"
      "\<forall>r\<in>set rs. 1000 + modifier < value_r r" and len: "int (length acc) < pool_size self"
      unfolding hopeless_def by blast
    let ?r = "rs ! (g 0 mod length rs)"
    have mem: "?r \<in> set rs" using rs(2) by simp
    have "fst (randint 1 1000 (draws_from g 1)) \<le> 1000"
      using randint_range [of 1 1000] by simp
    then have no: "\<not> value_r ?r \<le> fst (randint 1 1000 (draws_from g 1)) + modifier"
      using rs(3) mem by fastforce
    have "loop self modifier acc (snd (randint 1 1000 (draws_from g 1))) = Some y"
      using step len rs(1,2) no
      by (simp add: select_reward_RandomPool split_beta Let_def del: select_reward.simps)
    from IH [OF this] inv show False by blast
  qed
qed

text \<open>
  C8. A box that has to deliver at least one reward, over a non-empty pool all of whose
  rewards have a value above \<open>1000 + modifier\<close>, never leaves the loop of
  \<open>get_reward_pool\<close>, whatever the random source draws.
\<close>

theorem get_reward_pool_never_terminates:
  assumes "0 < pool_size self" and "pool self = RandomPool rs" and "rs \<noteq> []"
    and "\<forall>r\<in>set rs. 1000 + modifier < value_r r"
  shows "get_reward_pool self modifier g = None"
proof (cases "get_reward_pool self modifier g")
  case None
  then show ?thesis .
next
  case (Some y)
  then have "get_reward_pool_loop self modifier [] g = Some y"
    by (simp add: get_reward_pool_def)
  from loop_never [OF this] assms show ?thesis by (auto simp: hopeless_def)
qed

theorem get_reward_pool_never_terminates_witness:
  "get_reward_pool unreachable_box 0 (constant_rng 999) = None"
proof (rule get_reward_pool_never_terminates)
  show "0 < pool_size unreachable_box" by (simp add: unreachable_box_def)
  show "pool unreachable_box
          = RandomPool [\<lparr>value_r = 1001, description_r = ''Crown'', key_name = ''crown''\<rparr>]"
    by (simp add: unreachable_box_def)
  show "[\<lparr>value_r = 1001, description_r = ''Crown'', key_name = ''crown''\<rparr>] \<noteq> []" by simp
  show "\<forall>r\<in>set [\<lparr>value_r = 1001, description_r = ''Crown'', key_name = ''crown''\<rparr>].
          1000 + 0 < value_r r" by simp
qed

subsection \<open>What a box returns\<close>

lemma candidate_at_Suc: "candidate_at p g (Suc j) = candidate_at p (draws_from g 2) j"
  by (simp add: candidate_at_def draws_from_add)

lemma roll_at_Suc: "roll_at g (Suc j) = roll_at (draws_from g 2) j"
  by (simp add: roll_at_def draws_from_add)

lemma accepted_at_Suc: "accepted_at p m g (Suc j) = accepted_at p m (draws_from g 2) j"
  by (simp only: accepted_at_def candidate_at_Suc roll_at_Suc)

lemma accepted_upto_Suc:
  "accepted_upto p m g (Suc T) =
     (if accepted_at p m g 0 then [candidate_at p g 0] else []) @ accepted_upto p m (draws_from g 2) T"
proof -
  have upt: "[0..<Suc T] = 0 # map Suc [0..<T]"
    by (simp add: upt_conv_Cons map_Suc_upt del: upt_Suc)
  have "\<And>P f. map f (filter P (map Suc [0..<T])) = map (f \<circ> Suc) (filter (P \<circ> Suc) [0..<T])"
    by (simp add: filter_map)
  have c: "candidate_at p g \<circ> Suc = candidate_at p (draws_from g 2)"
    by (rule ext) (simp add: candidate_at_Suc)
  have a: "accepted_at p m g \<circ> Suc = accepted_at p m (draws_from g 2)"
    by (rule ext) (simp add: accepted_at_Suc)
  show ?thesis
    unfolding accepted_upto_def upt
    by (simp add: filter_map c a del: upt_Suc)
qed

lemma candidate_at_0:
  "rs \<noteq> [] \<Longrightarrow> candidate_at (RandomPool rs) g 0 = Return (Some (rs ! (g 0 mod length rs)))"
  by (simp add: candidate_at_def select_reward_RandomPool draws_from_0 del: select_reward.simps)

lemma roll_at_0: "roll_at g 0 = fst (randint 1 1000 (draws_from g 1))"
  by (simp add: roll_at_def)

lemma loop_result_stop:
  assumes "\<not> int (length acc) < pool_size self"
  shows "loop_result self modifier acc g (Return acc, g)"
proof -
  have "length acc = max (length acc) (nat (pool_size self))" using assms by simp
  then have "(Return acc, g) = (Return (acc @ []), draws_from g (2 * 0))
           \<and> length (acc @ []) = max (length acc) (nat (pool_size self))
           \<and> set [] \<subseteq> set rs
           \<and> map (\<lambda>r. Return (Some r)) [] = accepted_upto (pool self) modifier g 0" for rs :: "'a reward_scheme list"
    by (simp add: draws_from_0 accepted_upto_def)
  then show ?thesis unfolding loop_result_def by blast
qed

lemma loop_result_accept:
  assumes len: "int (length acc) < pool_size self"
    and rs: "pool self = RandomPool rs" "rs \<noteq> []"
    and acc: "accepted_at (pool self) modifier g 0"
    and rec: "loop_result self modifier (acc @ [rs ! (g 0 mod length rs)]) (draws_from g 2) res"
  shows "loop_result self modifier acc g res"
proof -
  let ?r = "rs ! (g 0 mod length rs)"
  from rec rs obtain xs T where
    res: "res = (Return ((acc @ [?r]) @ xs), draws_from (draws_from g 2) (2 * T))"
    and l: "length ((acc @ [?r]) @ xs) = max (length (acc @ [?r])) (nat (pool_size self))"
    and s: "set xs \<subseteq> set rs"
    and m: "map (\<lambda>r. Return (Some r)) xs = accepted_upto (pool self) modifier (draws_from g 2) T"
    unfolding loop_result_def by blast
  have mem: "?r \<in> set rs" using rs(2) by simp
  have 1: "res = (Return (acc @ (?r # xs)), draws_from g (2 * Suc T))"
    using res by (simp add: draws_from_add)
  have 2: "length (acc @ (?r # xs)) = max (length acc) (nat (pool_size self))"
    using l len by simp
  have 3: "set (?r # xs) \<subseteq> set rs" using s mem by simp
  have 4: "map (\<lambda>r. Return (Some r)) (?r # xs) = accepted_upto (pool self) modifier g (Suc T)"
    using m acc rs by (simp add: accepted_upto_Suc candidate_at_0)
  have "\<exists>xs T. res = (Return (acc @ xs), draws_from g (2 * T))
           \<and> length (acc @ xs) = max (length acc) (nat (pool_size self))
           \<and> set xs \<subseteq> set rs
           \<and> map (\<lambda>r. Return (Some r)) xs = accepted_upto (pool self) modifier g T"
    using 1 2 3 4 by blast
  then show ?thesis unfolding loop_result_def using rs by simp
qed

lemma loop_result_reject:
  assumes len: "int (length acc) < pool_size self"
    and rs: "pool self = RandomPool rs" "rs \<noteq> []"
    and acc: "\<not> accepted_at (pool self) modifier g 0"
    and rec: "loop_result self modifier acc (draws_from g 2) res"
  shows "loop_result self modifier acc g res"
proof -
  from rec rs obtain xs T where
    res: "res = (Return (acc @ xs), draws_from (draws_from g 2) (2 * T))"
    and l: "length (acc @ xs) = max (length acc) (nat (pool_size self))"
    and s: "set xs \<subseteq> set rs"
    and m: "map (\<lambda>r. Return (Some r)) xs = accepted_upto (pool self) modifier (draws_from g 2) T"
    unfolding loop_result_def by blast
  have 1: "res = (Return (acc @ xs), draws_from g (2 * Suc T))"
    using res by (simp add: draws_from_add)
  have 4: "map (\<lambda>r. Return (Some r)) xs = accepted_upto (pool self) modifier g (Suc T)"
    using m acc by (simp add: accepted_upto_Suc)
  have "\<exists>xs T. res = (Return (acc @ xs), draws_from g (2 * T))
           \<and> length (acc @ xs) = max (length acc) (nat (pool_size self))
           \<and> set xs \<subseteq> set rs
           \<and> map (\<lambda>r. Return (Some r)) xs = accepted_upto (pool self) modifier g T"
    using 1 l s 4 by blast
  then show ?thesis unfolding loop_result_def using rs by simp
qed

lemma loop_characterised:
  assumes "get_reward_pool_loop self modifier acc g = Some res"
  shows "loop_result self modifier acc g res"
proof (rule get_reward_pool_loop.raw_induct
    [where P = "\<lambda>self modifier acc g res. loop_result self modifier acc g res", OF _ assms])
  fix loop :: "('a reward_scheme, 'b) box_scheme \<Rightarrow> int \<Rightarrow> 'a reward_scheme list \<Rightarrow> rng
     \<Rightarrow> ('a reward_scheme list outcome \<times> rng) option"
  fix self modifier acc g res
  assume IH: "\<And>self modifier acc g res. loop self modifier acc g = Some res
                 \<Longrightarrow> loop_result self modifier acc g res"
  assume step: "(if int (length acc) < pool_size self then
        (case select_reward (pool self) g of
           (Return None, g1) \<Rightarrow> loop self modifier acc g1
         | (Return (Some reward), g1) \<Rightarrow>
             (let (roll, g2) = randint 1 1000 g1; chance = roll + modifier
              in if chance \<ge> value_r reward
                 then loop self modifier (acc @ [reward]) g2
                 else loop self modifier acc g2)
         | (Raise e, g1) \<Rightarrow> Some (Raise e, g1))
      else Some (Return acc, g)) = Some res"
  show "loop_result self modifier acc g res"
  proof (cases "int (length acc) < pool_size self")
    case False
    with step have "res = (Return acc, g)" by simp
    with False show ?thesis by (simp add: loop_result_stop)
  next
    case len: True
    show ?thesis
    proof (cases "\<exists>rs. pool self = RandomPool rs \<and> rs \<noteq> []")
      case False
      then show ?thesis unfolding loop_result_def by blast
    next
      case True
      then obtain rs where rs: "pool self = RandomPool rs" "rs \<noteq> []" by blast
      let ?r = "rs ! (g 0 mod length rs)"
      have g2: "snd (randint 1 1000 (draws_from g 1)) = draws_from g 2"
        by (simp add: randint_rng draws_from_add numeral_2_eq_2)
      have acc_iff: "accepted_at (pool self) modifier g 0
          \<longleftrightarrow> value_r ?r \<le> fst (randint 1 1000 (draws_from g 1)) + modifier"
        using rs by (simp add: accepted_at_def candidate_at_0 roll_at_0)
      show ?thesis
      proof (cases "accepted_at (pool self) modifier g 0")
        case True
        then have "loop self modifier (acc @ [?r]) (draws_from g 2) = Some res"
          using step len rs acc_iff g2
          by (simp add: select_reward_RandomPool split_beta Let_def del: select_reward.simps)
        from IH [OF this] show ?thesis
          using loop_result_accept [OF len rs True] by blast
      next
        case False
        then have "loop self modifier acc (draws_from g 2) = Some res"
          using step len rs acc_iff g2
          by (simp add: select_reward_RandomPool split_beta Let_def del: select_reward.simps)
        from IH [OF this] show ?thesis
          using loop_result_reject [OF len rs False] by blast
      qed
    qed
  qed
qed

lemma roll_at_range: "1 \<le> roll_at g j \<and> roll_at g j \<le> 1000"
  using randint_range [of 1 1000] by (simp add: roll_at_def)

lemma select_reward_no_reward:
  assumes "fst (select_reward p g) = Return None"
  shows "p = RandomPool []"
proof (cases p)
  case (RandomPool rs)
  show ?thesis
  proof (cases "rs = []")
    case True
    with RandomPool show ?thesis by simp
  next
    case False
    with assms RandomPool show ?thesis
      by (simp add: select_reward_RandomPool del: select_reward.simps)
  qed
next
  case (ListObj xs)
  with assms show ?thesis by simp
qed

lemma loop_starved:
  assumes "get_reward_pool_loop self modifier acc g = Some y"
  shows "\<not> (pool self = RandomPool [] \<and> int (length acc) < pool_size self)"
proof (rule get_reward_pool_loop.raw_induct
    [where P = "\<lambda>self modifier acc g y.
                  \<not> (pool self = RandomPool [] \<and> int (length acc) < pool_size self)",
     OF _ assms])
  fix loop :: "('a reward_scheme, 'b) box_scheme \<Rightarrow> int \<Rightarrow> 'a reward_scheme list \<Rightarrow> rng
     \<Rightarrow> ('a reward_scheme list outcome \<times> rng) option"
  fix self modifier acc g y
  assume IH: "\<And>self modifier acc g y. loop self modifier acc g = Some y
                 \<Longrightarrow> \<not> (pool self = RandomPool [] \<and> int (length acc) < pool_size self)"
  assume step: "(if int (length acc) < pool_size self then
        (case select_reward (pool self) g of
           (Return None, g1) \<Rightarrow> loop self modifier acc g1
         | (Return (Some reward), g1) \<Rightarrow>
             (let (roll, g2) = randint 1 1000 g1; chance = roll + modifier
              in if chance \<ge> value_r reward
                 then loop self modifier (acc @ [reward]) g2
                 else loop self modifier acc g2)
         | (Raise e, g1) \<Rightarrow> Some (Raise e, g1))
      else Some (Return acc, g)) = Some y"
  show "\<not> (pool self = RandomPool [] \<and> int (length acc) < pool_size self)"
  proof
    assume starved: "pool self = RandomPool [] \<and> int (length acc) < pool_size self"
    with step have "loop self modifier acc g = Some y" by simp
    from IH [OF this] starved show False by blast
  qed
qed

text \<open>
  C3. Over a non-empty \<open>RandomPool\<close>, a call of \<open>get_reward_pool\<close> that returns on a box of
  pool size \<open>k\<close> returns exactly \<open>k\<close> rewards, all of them members of the pool: they are the
  candidates of those of the \<open>T\<close> iterations run whose roll, a number from 1 to 1000, plus the
  modifier reached the candidate's value, in the order of the iterations. An iteration in
  which the pool yields no reward counts for nothing: the loop, entered with a list still
  short of the pool size on a pool that yields no reward, never returns.
\<close>

theorem get_reward_pool_exactly_k:
  "(pool self = RandomPool rs \<and> rs \<noteq> [] \<and> pool_size self = int k
      \<and> get_reward_pool self modifier g = Some res \<longrightarrow>
      (\<exists>xs T. res = (Return xs, draws_from g (2 * T))
         \<and> length xs = k
         \<and> set xs \<subseteq> set rs
         \<and> map (\<lambda>r. Return (Some r)) xs
             = map (candidate_at (pool self) g) (filter (accepted_at (pool self) modifier g) [0..<T])
         \<and> (\<forall>j<T. 1 \<le> roll_at g j \<and> roll_at g j \<le> 1000)))
   \<and> (int (length acc) < pool_size self \<and> fst (select_reward (pool self) g) = Return None \<longrightarrow>
        get_reward_pool_loop self modifier acc g = None)"
proof (intro conjI impI)
  assume a: "pool self = RandomPool rs \<and> rs \<noteq> [] \<and> pool_size self = int k
      \<and> get_reward_pool self modifier g = Some res"
  then have "loop_result self modifier [] g res"
    by (simp add: get_reward_pool_def loop_characterised)
  with a obtain xs T where "res = (Return xs, draws_from g (2 * T))"
    "length xs = max 0 (nat (pool_size self))" "set xs \<subseteq> set rs"
    "map (\<lambda>r. Return (Some r)) xs = accepted_upto (pool self) modifier g T"
    unfolding loop_result_def by auto
  with a show "\<exists>xs T. res = (Return xs, draws_from g (2 * T))
         \<and> length xs = k
         \<and> set xs \<subseteq> set rs
         \<and> map (\<lambda>r. Return (Some r)) xs
             = map (candidate_at (pool self) g) (filter (accepted_at (pool self) modifier g) [0..<T])
         \<and> (\<forall>j<T. 1 \<le> roll_at g j \<and> roll_at g j \<le> 1000)"
    using roll_at_range by (auto simp: accepted_upto_def)
next
  assume b: "int (length acc) < pool_size self \<and> fst (select_reward (pool self) g) = Return None"
  then have "pool self = RandomPool []" by (blast dest: select_reward_no_reward)
  with b have starved: "pool self = RandomPool [] \<and> int (length acc) < pool_size self" by simp
  show "get_reward_pool_loop self modifier acc g = None"
  proof (cases "get_reward_pool_loop self modifier acc g")
    case None
    then show ?thesis .
  next
    case (Some y)
    from loop_starved [OF this] starved show ?thesis by blast
  qed
qed

lemma get_reward_pool_reward_box:
  "get_reward_pool reward_box 252 (constant_rng 499)
     = Some (Return [reward2, reward2, reward2], constant_rng 499)"
  by (simp add: get_reward_pool_def reward_box_def reward1_def reward2_def reward3_def
      get_reward_pool_loop.simps randint_def constant_rng_def)

theorem get_reward_pool_exactly_k_witness:
  "(\<exists>T. length [reward2, reward2, reward2] = 3
      \<and> set [reward2, reward2, reward2] \<subseteq> set [reward1, reward2, reward3]
      \<and> map (\<lambda>r. Return (Some r)) [reward2, reward2, reward2]
          = map (candidate_at (pool reward_box) (constant_rng 499))
              (filter (accepted_at (pool reward_box) 252 (constant_rng 499)) [0..<T]))
   \<and> get_reward_pool_loop empty_box 0 [] (constant_rng 499) = None"
proof -
  have hyp: "pool reward_box = RandomPool [reward1, reward2, reward3]
      \<and> [reward1, reward2, reward3] \<noteq> [] \<and> pool_size reward_box = int 3
      \<and> get_reward_pool reward_box 252 (constant_rng 499)
          = Some (Return [reward2, reward2, reward2], constant_rng 499)"
    by (simp add: get_reward_pool_reward_box) (simp add: reward_box_def)
  have hyp': "int (length ([] :: key list)) < pool_size empty_box
      \<and> fst (select_reward (pool empty_box) (constant_rng 499)) = Return None"
    by (simp add: empty_box_def)
  from get_reward_pool_exactly_k
    [of reward_box "[reward1, reward2, reward3]" 3 252 "constant_rng 499"
       "(Return [reward2, reward2, reward2], constant_rng 499)"] hyp
  obtain xs T where "(Return [reward2, reward2, reward2], constant_rng 499)
        = (Return xs, draws_from (constant_rng 499) (2 * T))"
    and "length xs = 3" and "set xs \<subseteq> set [reward1, reward2, reward3]"
    and "map (\<lambda>r. Return (Some r)) xs
          = map (candidate_at (pool reward_box) (constant_rng 499))
              (filter (accepted_at (pool reward_box) 252 (constant_rng 499)) [0..<T])"
    by blast
  then have first: "\<exists>T. length [reward2, reward2, reward2] = 3
      \<and> set [reward2, reward2, reward2] \<subseteq> set [reward1, reward2, reward3]
      \<and> map (\<lambda>r. Return (Some r)) [reward2, reward2, reward2]
          = map (candidate_at (pool reward_box) (constant_rng 499))
              (filter (accepted_at (pool reward_box) 252 (constant_rng 499)) [0..<T])"
    by auto
  from get_reward_pool_exactly_k
    [where self = empty_box and acc = "[]" and g = "constant_rng 499" and modifier = 0] hyp'
  have "get_reward_pool_loop empty_box 0 [] (constant_rng 499) = None"
    by blast
  with first show ?thesis by blast
qed

subsection \<open>Completing a Todo\<close>

lemma only_completes_refl: "only_completes h h"
  by (simp add: only_completes_def)

lemma only_completes_trans:
  assumes "only_completes h1 h2" and "only_completes h2 h3"
  shows "only_completes h1 h3"
  unfolding only_completes_def
proof
  fix a
  from assms have "h2 a = h1 a \<or> h2 a = (h1 a)\<lparr>completed := True\<rparr>"
    and "h3 a = h2 a \<or> h3 a = (h2 a)\<lparr>completed := True\<rparr>"
    by (simp_all add: only_completes_def)
  then show "h3 a = h1 a \<or> h3 a = (h1 a)\<lparr>completed := True\<rparr>" by auto
qed

lemma only_completes_set: "only_completes h (h(r := (h r)\<lparr>completed := True\<rparr>))"
  by (simp add: only_completes_def)

lemma only_completes_fields:
  assumes "only_completes h h'"
  shows "required_subtasks (h' a) = required_subtasks (h a)"
    and "optional_subtasks (h' a) = optional_subtasks (h a)"
    and "completed (h a) \<Longrightarrow> completed (h' a)"
proof -
  from assms have "h' a = h a \<or> h' a = (h a)\<lparr>completed := True\<rparr>"
    by (simp add: only_completes_def)
  then show "required_subtasks (h' a) = required_subtasks (h a)"
    and "optional_subtasks (h' a) = optional_subtasks (h a)"
    and "completed (h a) \<Longrightarrow> completed (h' a)" by auto
qed

lemma only_completes_rel: "only_completes h h' \<Longrightarrow> subtask_rel h' = subtask_rel h"
  by (simp add: subtask_rel_def only_completes_fields)

lemma for_each_extensive:
  assumes "\<And>x h. only_completes h (snd (body x h))"
  shows "only_completes h (snd (for_each body xs h))"
proof (induction xs arbitrary: h)
  case Nil
  show ?case by (simp add: only_completes_refl)
next
  case (Cons x xs)
  obtain res h' where b: "body x h = (res, h')" by (cases "body x h")
  have step: "only_completes h h'" using assms [of h x] b by simp
  show ?case
  proof (cases res)
    case (Return u)
    with b Cons.IH [of h'] step show ?thesis
      by (auto intro: only_completes_trans)
  next
    case (Raise e)
    with b step show ?thesis by simp
  qed
qed

lemma complete_subtasks_extensive:
  assumes "\<And>x h. only_completes h (snd (mark x h))"
  shows "only_completes h (snd (complete_subtasks mark self h))"
proof -
  obtain res h1 where r: "for_each mark (required_subtasks (h self)) h = (res, h1)"
    by (cases "for_each mark (required_subtasks (h self)) h")
  have 1: "only_completes h h1"
    using for_each_extensive [of mark h "required_subtasks (h self)"] assms r by simp
  show ?thesis
  proof (cases res)
    case (Return u)
    have "only_completes h1 (snd (for_each mark (optional_subtasks (h1 self)) h1))"
      using for_each_extensive [of mark] assms by blast
    with 1 r Return show ?thesis
      by (auto simp: complete_subtasks_def intro: only_completes_trans)
  next
    case (Raise e)
    with 1 r show ?thesis by (simp add: complete_subtasks_def)
  qed
qed

lemma mark_complete_extensive: "only_completes h (snd (mark_complete n self h))"
proof (induction n arbitrary: self h)
  case 0
  show ?case by (simp add: only_completes_refl)
next
  case (Suc n)
  show ?case
  proof (cases "list_all (\<lambda>subtask. completed (h subtask)) (required_subtasks (h self))")
    case True
    let ?h1 = "h(self := (h self)\<lparr>completed := True\<rparr>)"
    have "only_completes ?h1 (snd (complete_subtasks (mark_complete n) self ?h1))"
      using complete_subtasks_extensive [of "mark_complete n"] Suc.IH by blast
    with True show ?thesis
      using only_completes_set [of h self] by (auto intro: only_completes_trans)
  next
    case False
    then show ?thesis by (simp add: only_completes_refl)
  qed
qed

lemma mark_complete_guard_fails:
  assumes "\<exists>s\<in>set (required_subtasks (h self)). \<not> completed (h s)"
  shows "mark_complete (Suc n) self h = (Raise PrerequisiteError, h)"
  using assms by (auto simp: list_all_iff)

lemma mark_complete_sets_flag:
  assumes "list_all (\<lambda>subtask. completed (h subtask)) (required_subtasks (h self))"
  shows "completed (snd (mark_complete (Suc n) self h) self)"
proof -
  let ?h1 = "h(self := (h self)\<lparr>completed := True\<rparr>)"
  have "only_completes ?h1 (snd (complete_subtasks (mark_complete n) self ?h1))"
    using complete_subtasks_extensive [of "mark_complete n"] mark_complete_extensive by blast
  moreover have "completed (?h1 self)" by simp
  ultimately have "completed (snd (complete_subtasks (mark_complete n) self ?h1) self)"
    by (rule only_completes_fields(3))
  with assms show ?thesis by simp
qed

lemma family_fields:
  "required_subtasks (family 0) = []" "optional_subtasks (family 0) = [Suc 0]"
  "required_subtasks (family (Suc 0)) = [Suc (Suc 0)]" "optional_subtasks (family (Suc 0)) = []"
  "required_subtasks (family (Suc (Suc 0))) = []" "optional_subtasks (family (Suc (Suc 0))) = []"
  "\<not> completed (family 0)" "\<not> completed (family (Suc 0))" "\<not> completed (family (Suc (Suc 0)))"
  by (simp_all add: family_def blank_def add_subtask_def Todo_init_def numeral_2_eq_2)

lemma family_run:
  "mark_complete 3 0 family = (Raise PrerequisiteError, family(0 := (family 0)\<lparr>completed := True\<rparr>))"
  by (simp add: numeral_3_eq_3 complete_subtasks_def family_fields)

lemma reopened_fields:
  "required_subtasks (reopened 0) = [Suc 0]" "completed (reopened 0)"
  "\<not> completed (reopened (Suc 0))"
  by (simp_all add: reopened_def blank_def add_subtask_def Todo_init_def)

lemma reopened_run: "mark_complete 3 0 reopened = (Raise PrerequisiteError, reopened)"
  by (simp add: numeral_3_eq_3 reopened_fields)

text \<open>
  C1, as the claim states it, fails: Todo 0 of \<open>family\<close> has no required subtask, yet
  \<open>mark_complete\<close> raises the exception of the incomplete prerequisite, out of its optional
  subtask 1, after it has set the flag of Todo 0. And Todo 0 of \<open>reopened\<close> has a required
  subtask that is not completed, yet the failing call leaves its flag as it was, true.
\<close>

theorem mark_complete_prerequisite_counterexample:
  "fst (mark_complete 3 0 family) = Raise PrerequisiteError
   \<and> required_subtasks (family 0) = []
   \<and> \<not> completed (family 0)
   \<and> completed (snd (mark_complete 3 0 family) 0)
   \<and> fst (mark_complete 3 0 reopened) = Raise PrerequisiteError
   \<and> required_subtasks (reopened 0) = [Suc 0]
   \<and> \<not> completed (reopened (Suc 0))
   \<and> completed (snd (mark_complete 3 0 reopened) 0)"
  by (simp add: family_run family_fields reopened_run reopened_fields)

text \<open>
  C1, amended. When a required subtask of the Todo is not completed, \<open>mark_complete\<close>
  raises the exception of the incomplete prerequisite and leaves the whole store as it
  was. For a Todo that is not completed, the call raises that exception and leaves the flag
  of the Todo false exactly when one of its required subtasks is not completed.
\<close>

theorem mark_complete_prerequisite:
  "((\<exists>s\<in>set (required_subtasks (h self)). \<not> completed (h s)) \<longrightarrow>
      mark_complete (Suc n) self h = (Raise PrerequisiteError, h))
   \<and> (\<not> completed (h self) \<longrightarrow>
        (fst (mark_complete (Suc n) self h) = Raise PrerequisiteError
           \<and> \<not> completed (snd (mark_complete (Suc n) self h) self))
        = (\<exists>s\<in>set (required_subtasks (h self)). \<not> completed (h s)))"
proof (intro conjI impI)
  assume "\<exists>s\<in>set (required_subtasks (h self)). \<not> completed (h s)"
  then show "mark_complete (Suc n) self h = (Raise PrerequisiteError, h)"
    by (rule mark_complete_guard_fails)
next
  assume flag: "\<not> completed (h self)"
  show "(fst (mark_complete (Suc n) self h) = Raise PrerequisiteError
           \<and> \<not> completed (snd (mark_complete (Suc n) self h) self))
        = (\<exists>s\<in>set (required_subtasks (h self)). \<not> completed (h s))"
  proof (cases "list_all (\<lambda>subtask. completed (h subtask)) (required_subtasks (h self))")
    case True
    from mark_complete_sets_flag [OF True, of n] True show ?thesis
      by (auto simp: list_all_iff)
  next
    case False
    then have "\<exists>s\<in>set (required_subtasks (h self)). \<not> completed (h s)"
      by (auto simp: list_all_iff)
    with flag mark_complete_guard_fails [OF this, of n] show ?thesis by simp
  qed
qed

theorem mark_complete_prerequisite_witness:
  "mark_complete (Suc (Suc 0)) (Suc 0) family = (Raise PrerequisiteError, family)
   \<and> \<not> completed (snd (mark_complete (Suc (Suc 0)) (Suc 0) family) (Suc 0))"
proof -
  have open_subtask: "\<exists>s\<in>set (required_subtasks (family (Suc 0))). \<not> completed (family s)"
    by (simp add: family_fields)
  have flag: "\<not> completed (family (Suc 0))"
    by (simp add: family_fields)
  from mark_complete_prerequisite [of family "Suc 0" "Suc 0"] open_subtask flag
  show ?thesis by blast
qed

lemma for_each_success:
  assumes ext: "\<And>x h. only_completes h (snd (body x h))"
    and ok: "fst (for_each body xs h) = Return ()"
    and mem: "x \<in> set xs"
  shows "\<exists>ha. only_completes h ha \<and> fst (body x ha) = Return ()
           \<and> only_completes (snd (body x ha)) (snd (for_each body xs h))"
  using ok mem
proof (induction xs arbitrary: h)
  case Nil
  then show ?case by simp
next
  case (Cons y ys)
  obtain res h' where b: "body y h = (res, h')" by (cases "body y h")
  have step: "only_completes h h'" using ext [of h y] b by simp
  from Cons.prems(1) b have res: "res = Return ()" and rest: "fst (for_each body ys h') = Return ()"
    by (cases res; simp)+
  have whole: "for_each body (y # ys) h = for_each body ys h'" using b res by simp
  show ?case
  proof (cases "x = y")
    case True
    have "only_completes h' (snd (for_each body ys h'))"
      using for_each_extensive [of body] ext by blast
    with b res True whole show ?thesis
      using only_completes_refl [of h] by (intro exI [of _ h]) simp
  next
    case False
    with Cons.prems(2) have "x \<in> set ys" by simp
    from Cons.IH [OF rest this] obtain ha where
      "only_completes h' ha" "fst (body x ha) = Return ()"
      "only_completes (snd (body x ha)) (snd (for_each body ys h'))" by blast
    with step whole show ?thesis
      by (auto intro: only_completes_trans)
  qed
qed

lemma for_each_all_succeed:
  assumes ext: "\<And>x h. only_completes h (snd (body x h))"
    and each: "\<And>x ha. x \<in> set xs \<Longrightarrow> only_completes h ha \<Longrightarrow> fst (body x ha) = Return ()"
    and start: "only_completes h h0"
  shows "fst (for_each body xs h0) = Return ()"
  using each start
proof (induction xs arbitrary: h0)
  case Nil
  show ?case by simp
next
  case (Cons y ys)
  obtain res h' where b: "body y h0 = (res, h')" by (cases "body y h0")
  have "fst (body y h0) = Return ()" using Cons.prems by simp
  with b have res: "res = Return ()" by simp
  have "only_completes h0 h'" using ext [of h0 y] b by simp
  with Cons.prems(2) have "only_completes h h'" by (rule only_completes_trans)
  with Cons.IH [of h'] Cons.prems(1) have "fst (for_each body ys h') = Return ()" by simp
  with b res show ?case by simp
qed

lemma completable_mono:
  assumes "only_completes h h'" and "completable n h self"
  shows "completable n h' self"
  using assms(2)
proof (induction n arbitrary: self)
  case 0
  then show ?case by simp
next
  case (Suc n)
  then show ?case
    using only_completes_fields [OF assms(1)]
    by (auto simp: list_all_iff)
qed

lemma completable_succeeds:
  assumes "completable n h self"
  shows "fst (mark_complete n self h) = Return ()"
  using assms
proof (induction n arbitrary: self h)
  case 0
  then show ?case by simp
next
  case (Suc n)
  let ?h1 = "h(self := (h self)\<lparr>completed := True\<rparr>)"
  have guard: "list_all (\<lambda>subtask. completed (h subtask)) (required_subtasks (h self))"
    and kids: "\<forall>x \<in> set (required_subtasks (h self) @ optional_subtasks (h self)). completable n h x"
    using Suc.prems by (simp_all add: list_all_iff)
  have ext: "\<And>x h. only_completes h (snd (mark_complete n x h))"
    by (rule mark_complete_extensive)
  have each: "fst (mark_complete n x ha) = Return ()"
    if "x \<in> set (required_subtasks (h self) @ optional_subtasks (h self))" and "only_completes h ha"
    for x ha
    using Suc.IH [of ha x] completable_mono [OF that(2)] kids that(1) by blast
  have h1: "only_completes h ?h1" by (rule only_completes_set)
  obtain res h2 where r: "for_each (mark_complete n) (required_subtasks (?h1 self)) ?h1 = (res, h2)"
    by (cases "for_each (mark_complete n) (required_subtasks (?h1 self)) ?h1")
  have "fst (for_each (mark_complete n) (required_subtasks (h self)) ?h1) = Return ()"
    using for_each_all_succeed [of "mark_complete n" "required_subtasks (h self)" h ?h1] ext each h1
    by simp
  with r have res: "res = Return ()" by simp
  have "only_completes ?h1 h2"
    using for_each_extensive [of "mark_complete n" ?h1 "required_subtasks (?h1 self)"] ext r by simp
  with h1 have h2: "only_completes h h2" by (rule only_completes_trans)
  have opt: "optional_subtasks (h2 self) = optional_subtasks (h self)"
    using only_completes_fields(2) [OF h2] by simp
  have "fst (for_each (mark_complete n) (optional_subtasks (h self)) h2) = Return ()"
    using for_each_all_succeed [of "mark_complete n" "optional_subtasks (h self)" h h2] ext each h2
    by simp
  with guard r res opt show ?case by (simp add: complete_subtasks_def)
qed

lemma success_completes_all:
  assumes "fst (mark_complete n self h) = Return ()" and "(self, s) \<in> (subtask_rel h)\<^sup>*"
  shows "completed (snd (mark_complete n self h) s)"
  using assms
proof (induction n arbitrary: self h s)
  case 0
  then show ?case by simp
next
  case (Suc n)
  let ?h1 = "h(self := (h self)\<lparr>completed := True\<rparr>)"
  have ext: "\<And>x h. only_completes h (snd (mark_complete n x h))"
    by (rule mark_complete_extensive)
  have guard: "list_all (\<lambda>subtask. completed (h subtask)) (required_subtasks (h self))"
    using Suc.prems(1) by (cases "list_all (\<lambda>subtask. completed (h subtask)) (required_subtasks (h self))") simp_all
  have h1: "only_completes h ?h1" by (rule only_completes_set)
  obtain res h2 where r: "for_each (mark_complete n) (required_subtasks (?h1 self)) ?h1 = (res, h2)"
    by (cases "for_each (mark_complete n) (required_subtasks (?h1 self)) ?h1")
  have run: "mark_complete (Suc n) self h = complete_subtasks (mark_complete n) self ?h1"
    using guard by simp
  have res: "res = Return ()"
    using Suc.prems(1) r unfolding run complete_subtasks_def by (cases res) simp_all
  let ?h3 = "snd (for_each (mark_complete n) (optional_subtasks (h2 self)) h2)"
  have final: "mark_complete (Suc n) self h = for_each (mark_complete n) (optional_subtasks (h2 self)) h2"
    unfolding run complete_subtasks_def using r res by simp
  have ok3: "fst (for_each (mark_complete n) (optional_subtasks (h2 self)) h2) = Return ()"
    using Suc.prems(1) final by simp
  have h12: "only_completes ?h1 h2"
    using for_each_extensive [of "mark_complete n" ?h1 "required_subtasks (?h1 self)"] ext r by simp
  have h23: "only_completes h2 ?h3"
    using for_each_extensive [of "mark_complete n"] ext by blast
  have h02: "only_completes h h2" using h1 h12 by (rule only_completes_trans)
  have h13: "only_completes ?h1 ?h3" using h12 h23 by (rule only_completes_trans)
  have via: "completed (?h3 t)"
    if c: "c \<in> set (required_subtasks (h self)) \<union> set (optional_subtasks (h self))"
      and t: "(c, t) \<in> (subtask_rel h)\<^sup>*" for c t
  proof -
    from c show ?thesis
    proof
      assume "c \<in> set (required_subtasks (h self))"
      then have "c \<in> set (required_subtasks (?h1 self))" by simp
      from for_each_success [of "mark_complete n", OF ext _ this, of ?h1] r res
      obtain ha where a: "only_completes ?h1 ha" "fst (mark_complete n c ha) = Return ()"
        "only_completes (snd (mark_complete n c ha)) h2" by auto
      have "only_completes h ha" using h1 a(1) by (rule only_completes_trans)
      then have "subtask_rel ha = subtask_rel h" by (rule only_completes_rel)
      with Suc.IH [OF a(2), of ] t have "completed (snd (mark_complete n c ha) t)" by simp
      then have "completed (h2 t)" using only_completes_fields(3) [OF a(3)] by blast
      then show ?thesis using only_completes_fields(3) [OF h23] by blast
    next
      assume "c \<in> set (optional_subtasks (h self))"
      then have "c \<in> set (optional_subtasks (h2 self))"
        using only_completes_fields(2) [OF h02] by simp
      from for_each_success [of "mark_complete n", OF ext ok3 this]
      obtain ha where a: "only_completes h2 ha" "fst (mark_complete n c ha) = Return ()"
        "only_completes (snd (mark_complete n c ha)) ?h3" by auto
      have "only_completes h ha" using h02 a(1) by (rule only_completes_trans)
      then have "subtask_rel ha = subtask_rel h" by (rule only_completes_rel)
      with Suc.IH [OF a(2)] t have "completed (snd (mark_complete n c ha) t)" by simp
      then show ?thesis using only_completes_fields(3) [OF a(3)] by blast
    qed
  qed
  have "completed (?h3 s)"
    using Suc.prems(2)
  proof (cases rule: converse_rtranclE)
    case base
    have "completed (?h1 self)" by simp
    then have "completed (?h3 self)" using only_completes_fields(3) [OF h13] by blast
    with base show ?thesis by simp
  next
    case (step c)
    then have "c \<in> set (required_subtasks (h self)) \<union> set (optional_subtasks (h self))"
      by (simp add: subtask_rel_def)
    from via [OF this step(2)] show ?thesis .
  qed
  then show ?case unfolding final .
qed

text \<open>
  C2, as the claim states it, fails: all required subtasks of Todo 0 of \<open>family\<close> are
  completed (it has none), yet \<open>mark_complete\<close> raises, and its optional subtask 1, whose
  own required subtask is not completed, stays uncompleted.
\<close>

theorem mark_complete_transitive_counterexample:
  "list_all (\<lambda>subtask. completed (family subtask)) (required_subtasks (family 0))
   \<and> fst (mark_complete 3 0 family) = Raise PrerequisiteError
   \<and> 1 \<in> set (optional_subtasks (family 0))
   \<and> \<not> completed (snd (mark_complete 3 0 family) 1)"
  by (simp add: family_run family_fields)

text \<open>
  C2, amended. For a Todo all of whose required subtasks are completed,
  \<open>mark_complete\<close> sets the flag of the Todo. It succeeds when moreover every Todo below,
  through required and optional subtasks, has all of its own required subtasks completed
  (\<open>completable\<close>): a subtask, optional or not, is completed by its own \<open>mark_complete\<close>,
  guard included. Whenever the call succeeds, the Todo and every Todo reachable from it through
  required and optional subtasks is completed.
\<close>

theorem mark_complete_transitive:
  "(list_all (\<lambda>subtask. completed (h subtask)) (required_subtasks (h self)) \<longrightarrow>
      completed (snd (mark_complete (Suc n) self h) self))
   \<and> (completable n h self \<longrightarrow> fst (mark_complete n self h) = Return ())
   \<and> (fst (mark_complete n self h) = Return () \<longrightarrow>
        (\<forall>s. (self, s) \<in> (subtask_rel h)\<^sup>* \<longrightarrow> completed (snd (mark_complete n self h) s)))"
  using mark_complete_sets_flag [of h self n] completable_succeeds [of n h self]
    success_completes_all [of n self h]
  by blast

lemma household_fields:
  "required_subtasks (household 0) = [Suc 0]" "optional_subtasks (household 0) = [Suc (Suc 0)]"
  "required_subtasks (household (Suc 0)) = []" "optional_subtasks (household (Suc 0)) = []"
  "required_subtasks (household (Suc (Suc 0))) = []"
  "optional_subtasks (household (Suc (Suc 0))) = []"
  "completed (household (Suc 0))" "\<not> completed (household (Suc (Suc 0)))"
  "\<not> completed (household 0)"
  by (simp_all add: household_def blank_def add_subtask_def Todo_init_def numeral_2_eq_2)

theorem mark_complete_transitive_witness:
  "fst (mark_complete (Suc (Suc 0)) 0 household) = Return ()
   \<and> completed (snd (mark_complete (Suc (Suc 0)) 0 household) 0)
   \<and> completed (snd (mark_complete (Suc (Suc 0)) 0 household) (Suc (Suc 0)))"
proof -
  have guard: "list_all (\<lambda>subtask. completed (household subtask)) (required_subtasks (household 0))"
    by (simp add: household_fields)
  have fits: "completable (Suc (Suc 0)) household 0"
    by (simp add: household_fields)
  have "(0, Suc (Suc 0)) \<in> subtask_rel household"
    by (simp add: subtask_rel_def household_fields)
  then have below: "(0, Suc (Suc 0)) \<in> (subtask_rel household)\<^sup>*" by (rule r_into_rtrancl)
  from mark_complete_transitive [of household 0 "Suc 0"] guard
  have "completed (snd (mark_complete (Suc (Suc 0)) 0 household) 0)" by blast
  moreover from mark_complete_transitive [of household 0 "Suc (Suc 0)"] fits below
  have "fst (mark_complete (Suc (Suc 0)) 0 household) = Return ()
    \<and> completed (snd (mark_complete (Suc (Suc 0)) 0 household) (Suc (Suc 0)))" by blast
  ultimately show ?thesis by blast
qed

subsection \<open>A loot box built by its constructor\<close>

lemma get_reward_pool_ListObj:
  assumes "pool self = ListObj xs"
  shows "get_reward_pool self modifier g =
           (if 0 < pool_size self then Some (Raise AttributeError, g) else Some (Return [], g))"
  using assms by (simp add: get_reward_pool_def get_reward_pool_loop.simps)

text \<open>
  C10, as the claim states it, fails: a loot box built with pool size 0 returns the empty
  reward pool to the matching key.
\<close>

theorem LootBox_init_counterexample:
  "open_box (LootBox_init ''chest'' ''reward_key_1'' 0 [reward1]) reward1 (constant_rng 0)
     = Some (Return (Some []), constant_rng 0)"
  by (simp add: open_box_def LootBox_init_def reward1_def get_reward_pool_ListObj)

text \<open>
  C10, amended. The constructor of \<open>LootBox\<close> installs the plain list of rewards as the
  pool. With a matching key, such a loot box of positive pool size raises in the first
  iteration, before any draw, for want of \<open>select_reward\<close>; one of pool size 0 or less
  returns the empty list, without a draw either. So none ever returns a reward.
\<close>

theorem LootBox_init_never_draws:
  "pool (LootBox_init nm kn psize rs) = ListObj rs
   \<and> (key_name k = kn \<longrightarrow>
        open_box (LootBox_init nm kn psize rs) k g =
          (if 0 < psize then Some (Raise AttributeError, g) else Some (Return (Some []), g)))"
proof -
  have installed: "pool (LootBox_init nm kn psize rs) = ListObj rs"
    and size: "pool_size (LootBox_init nm kn psize rs) = psize"
    and secret: "key_name_b (LootBox_init nm kn psize rs) = kn"
    by (simp_all add: LootBox_init_def)
  show ?thesis
    by (simp add: open_box_def get_reward_pool_ListObj [OF installed] installed size secret)
qed

theorem LootBox_init_never_draws_witness:
  "open_box (LootBox_init ''chest'' ''reward_key_1'' 3 [reward1, reward2]) reward1 (constant_rng 0)
     = Some (Raise AttributeError, constant_rng 0)"
proof -
  have "key_name reward1 = ''reward_key_1''" by (simp add: reward1_def)
  with LootBox_init_never_draws
    [of "''chest''" "''reward_key_1''" 3 "[reward1, reward2]" reward1 "constant_rng 0"]
  show ?thesis by simp
qed

subsection \<open>Creating a task\<close>

lemma select_reward_empty: "select_reward (RandomPool []) g = (Return None, g)"
  by simp

lemma create_task_reward:
  assumes "0 < modifier_of descr imp dgen qgen"
  shows "create_task (Suc n) todos descr imp dgen qgen sgen rbox pbox g =
     (todos @ [fresh_todo descr imp dgen qgen],
      case get_reward_pool rbox (modifier_of descr imp dgen qgen) g of
        None \<Rightarrow> None
      | Some (Raise e, g1) \<Rightarrow> Some (Raise e, g1)
      | Some (Return rs, g1) \<Rightarrow>
          if rs \<noteq> [] then Some (Return (Some (rs ! (g1 0 mod length rs))), draws_from g1 1)
          else Some (Return None, g1))"
  using assms
  by (simp add: Let_def modifier_of_def fresh_todo_def add_todo_def select_reward_RandomPool
      del: select_reward.simps split: option.splits prod.splits outcome.splits)

lemma create_task_punishment:
  assumes "\<not> 0 < modifier_of descr imp dgen qgen" and "imp \<le> fst (randint 1 10 g)"
  shows "create_task (Suc n) todos descr imp dgen qgen sgen rbox pbox g =
     (todos @ [fresh_todo descr imp dgen qgen],
      case get_reward_pool pbox (modifier_of descr imp dgen qgen) (draws_from g 1) of
        None \<Rightarrow> None
      | Some (Raise e, g2) \<Rightarrow> Some (Raise e, g2)
      | Some (Return rs, g2) \<Rightarrow>
          if rs \<noteq> [] then Some (Return (Some (rs ! (g2 0 mod length rs))), draws_from g2 1)
          else Some (Return None, g2))"
  using assms randint_rng [of 1 10 g]
  by (simp add: Let_def modifier_of_def fresh_todo_def add_todo_def select_reward_RandomPool
      select_reward_empty split_beta
      del: select_reward.simps split: option.splits prod.splits outcome.splits)

lemma create_task_suggestion:
  assumes "\<not> 0 < modifier_of descr imp dgen qgen" and "\<not> imp \<le> fst (randint 1 10 g)"
  shows "create_task (Suc n) todos descr imp dgen qgen sgen rbox pbox g =
     create_task n (todos @ [fresh_todo descr imp dgen qgen]) (sgen descr) imp dgen qgen sgen
       rbox pbox (draws_from g 1)"
  using assms randint_rng [of 1 10 g]
  by (simp add: Let_def modifier_of_def fresh_todo_def add_todo_def split_beta)

lemma fresh_list_Suc:
  "map (\<lambda>i. fresh_todo ((sgen ^^ i) descr) imp dgen qgen) [0..<Suc k] =
     fresh_todo descr imp dgen qgen
       # map (\<lambda>i. fresh_todo ((sgen ^^ i) (sgen descr)) imp dgen qgen) [0..<k]"
proof -
  have "[0..<Suc k] = 0 # map Suc [0..<k]"
    by (simp add: upt_conv_Cons map_Suc_upt del: upt_Suc)
  then show ?thesis
    by (simp add: funpow_swap1 comp_def del: upt_Suc)
qed

lemma create_task_appends:
  "fst (create_task n todos descr imp dgen qgen sgen rbox pbox g)
     = todos @ map (\<lambda>i. fresh_todo ((sgen ^^ i) descr) imp dgen qgen)
                 [0..<invocations n descr imp dgen qgen sgen g]"
proof (induction n arbitrary: todos descr g)
  case 0
  show ?case by simp
next
  case (Suc n)
  show ?case
  proof (cases "0 < modifier_of descr imp dgen qgen")
    case True
    then show ?thesis
      by (simp add: create_task_reward del: create_task.simps)
  next
    case no: False
    show ?thesis
    proof (cases "imp \<le> fst (randint 1 10 g)")
      case True
      with no show ?thesis
        by (simp add: create_task_punishment split_beta del: create_task.simps)
    next
      case False
      have "fst (create_task (Suc n) todos descr imp dgen qgen sgen rbox pbox g)
          = fst (create_task n (todos @ [fresh_todo descr imp dgen qgen]) (sgen descr)
                   imp dgen qgen sgen rbox pbox (draws_from g 1))"
        by (simp only: create_task_suggestion [OF no False])
      with Suc.IH [of "todos @ [fresh_todo descr imp dgen qgen]" "sgen descr" "draws_from g 1"]
        no False randint_rng [of 1 10 g]
      show ?thesis
        by (simp add: split_beta fresh_list_Suc del: upt_Suc create_task.simps)
    qed
  qed
qed

lemma select_reward_Some:
  assumes "select_reward p g = (Return (Some r), g1)"
  shows "\<exists>prs. p = RandomPool prs \<and> r \<in> set prs"
proof (cases p)
  case (RandomPool prs)
  show ?thesis
  proof (cases "prs = []")
    case True
    with assms RandomPool show ?thesis by simp
  next
    case False
    with assms RandomPool have "r = prs ! (g 0 mod length prs)"
      by (simp add: select_reward_RandomPool del: select_reward.simps)
    with False RandomPool show ?thesis by simp
  qed
next
  case (ListObj xs)
  with assms show ?thesis by simp
qed

lemma from_pool_grow:
  assumes "from_pool self (acc @ [r]) res" and "select_reward (pool self) g = (Return (Some r), g1)"
  shows "from_pool self acc res"
  using assms(1) select_reward_Some [OF assms(2)]
  unfolding from_pool_def by auto

lemma loop_from_pool:
  assumes "get_reward_pool_loop self modifier acc g = Some res"
  shows "from_pool self acc res"
proof (rule get_reward_pool_loop.raw_induct
    [where P = "\<lambda>self modifier acc g res. from_pool self acc res", OF _ assms])
  fix loop :: "('a reward_scheme, 'b) box_scheme \<Rightarrow> int \<Rightarrow> 'a reward_scheme list \<Rightarrow> rng
     \<Rightarrow> ('a reward_scheme list outcome \<times> rng) option"
  fix self modifier acc g res
  assume IH: "\<And>self modifier acc g res. loop self modifier acc g = Some res
                 \<Longrightarrow> from_pool self acc res"
  assume step: "(if int (length acc) < pool_size self then
        (case select_reward (pool self) g of
           (Return None, g1) \<Rightarrow> loop self modifier acc g1
         | (Return (Some reward), g1) \<Rightarrow>
             (let (roll, g2) = randint 1 1000 g1; chance = roll + modifier
              in if chance \<ge> value_r reward
                 then loop self modifier (acc @ [reward]) g2
                 else loop self modifier acc g2)
         | (Raise e, g1) \<Rightarrow> Some (Raise e, g1))
      else Some (Return acc, g)) = Some res"
  show "from_pool self acc res"
  proof (cases "int (length acc) < pool_size self")
    case False
    with step show ?thesis by (auto simp: from_pool_def)
  next
    case True
    obtain c g1 where sel: "select_reward (pool self) g = (c, g1)"
      by (cases "select_reward (pool self) g")
    show ?thesis
    proof (cases c)
      case (Raise e)
      with step True sel show ?thesis by (auto simp: from_pool_def)
    next
      case (Return cand)
      show ?thesis
      proof (cases cand)
        case None
        with step True sel Return have "loop self modifier acc g1 = Some res" by simp
        then show ?thesis by (rule IH)
      next
        case (Some r)
        show ?thesis
        proof (cases "value_r r \<le> fst (randint 1 1000 g1) + modifier")
          case yes: True
          with step True sel Return Some
          have "loop self modifier (acc @ [r]) (snd (randint 1 1000 g1)) = Some res"
            by (simp add: split_beta Let_def)
          from IH [OF this] sel Return Some show ?thesis
            by (auto intro: from_pool_grow)
        next
          case False
          with step True sel Return Some
          have "loop self modifier acc (snd (randint 1 1000 g1)) = Some res"
            by (simp add: split_beta Let_def)
          then show ?thesis by (rule IH)
        qed
      qed
    qed
  qed
qed

lemma get_reward_pool_members:
  assumes "get_reward_pool self modifier g = Some (Return rs, g1)" and "rs \<noteq> []"
  shows "\<exists>prs. pool self = RandomPool prs \<and> set rs \<subseteq> set prs"
proof -
  from assms(1) have "from_pool self [] (Return rs, g1)"
    by (simp add: get_reward_pool_def loop_from_pool)
  then have sub: "set rs \<subseteq> {r. \<exists>prs. pool self = RandomPool prs \<and> r \<in> set prs}"
    by (simp add: from_pool_def)
  from assms(2) obtain r where "r \<in> set rs" by (cases rs) auto
  with sub obtain prs where "pool self = RandomPool prs" by blast
  with sub show ?thesis by auto
qed


lemma modifier_scenario:
  "modifier_of ''Main task'' 5 (Some TestDifficultyGenerator) (Some TestQualityGenerator) = 252"
  by (simp add: modifier_of_def fresh_todo_def Todo_init_def TestQualityGenerator_def)

lemma create_task_scenario_reward:
  "create_task (Suc 0) [] ''Main task'' 5 (Some TestDifficultyGenerator) (Some TestQualityGenerator)
     SimpleSuggestionGenerator reward_box punishment_box (constant_rng 499)
   = ([fresh_todo ''Main task'' 5 (Some TestDifficultyGenerator) (Some TestQualityGenerator)],
      Some (Return (Some reward2), constant_rng 499))"
  by (simp add: create_task_reward modifier_scenario get_reward_pool_reward_box
      draws_from_constant del: create_task.simps) (simp add: constant_rng_def)

lemma invocations_pos: "0 < invocations (Suc n) descr imp dgen qgen sgen g"
  by (simp add: split_beta Let_def)

lemma create_task_first_todo:
  "\<exists>rest. fst (create_task (Suc n) todos descr imp dgen qgen sgen rbox pbox g)
            = todos @ [fresh_todo descr imp dgen qgen] @ rest"
proof -
  obtain k where k: "invocations (Suc n) descr imp dgen qgen sgen g = Suc k"
    using invocations_pos [of n descr imp dgen qgen sgen g] by (auto simp: gr0_conv_Suc)
  show ?thesis
    unfolding create_task_appends k fresh_list_Suc by simp
qed

lemma create_task_scenario_suggestion:
  "create_task (Suc (Suc 0)) [] ''Main task'' 11 None None SimpleSuggestionGenerator
     reward_box punishment_box (constant_rng 9)
   = ([fresh_todo ''Main task'' 11 None None, fresh_todo ''Main task (updated)'' 11 None None],
      Some (Raise RecursionError, constant_rng 9))"
  by (simp add: fresh_todo_def Todo_init_def add_todo_def randint_def constant_rng_def
      SimpleSuggestionGenerator_def)

lemma create_task_scenario_punishment:
  "create_task (Suc 0) [] ''Main task'' 5 None None SimpleSuggestionGenerator
     reward_box punishment_box (constant_rng 499)
   = ([fresh_todo ''Main task'' 5 None None], Some (Return (Some punishment2), constant_rng 499))"
proof -
  have pool: "get_reward_pool punishment_box 0 (constant_rng 499)
      = Some (Return [punishment2, punishment2, punishment2], constant_rng 499)"
    by (simp add: get_reward_pool_def punishment_box_def punishment1_def punishment2_def
        punishment3_def get_reward_pool_loop.simps randint_def constant_rng_def)
  have m: "modifier_of ''Main task'' 5 None None = 0"
    by (simp add: modifier_of_def fresh_todo_def Todo_init_def)
  have r: "fst (randint 1 10 (constant_rng 499)) = 10"
    by (simp add: randint_def constant_rng_def)
  show ?thesis
    by (simp add: create_task_punishment m r pool draws_from_constant del: create_task.simps)
      (simp add: constant_rng_def)
qed

lemma get_reward_pool_vault: "get_reward_pool vault 252 g = None"
proof (cases "get_reward_pool vault 252 g")
  case None
  then show ?thesis .
next
  case (Some y)
  then have "get_reward_pool_loop vault 252 [] g = Some y"
    by (simp add: get_reward_pool_def)
  from loop_never [OF this] show ?thesis
    by (simp add: hopeless_def vault_def)
qed

text \<open>
  C5. An invocation of \<open>create_task\<close> whose modifier \<open>quality * (11 - importance)\<close> is
  positive and whose draw from the reward box returns, returns a reward of the drawn list,
  hence a member of the pool of the reward box, or no reward when the drawn list is empty.
  The punishment box has no part in the result, and neither has any further invocation: one
  level of depth gives the same result as any number.
\<close>

theorem create_task_reward_branch:
  "(0 < modifier_of descr imp dgen qgen
      \<and> get_reward_pool rbox (modifier_of descr imp dgen qgen) g = Some (Return rs, g1) \<longrightarrow>
      (\<exists>res g2. create_task (Suc n) todos descr imp dgen qgen sgen rbox pbox g
                   = (todos @ [fresh_todo descr imp dgen qgen], Some (Return res, g2))
         \<and> (rs = [] \<longrightarrow> res = None \<and> g2 = g1)
         \<and> (rs \<noteq> [] \<longrightarrow>
              (\<exists>r prs. res = Some r \<and> r \<in> set rs \<and> pool rbox = RandomPool prs \<and> r \<in> set prs))))
   \<and> (0 < modifier_of descr imp dgen qgen \<longrightarrow>
        create_task (Suc n) todos descr imp dgen qgen sgen rbox pbox g
          = create_task (Suc 0) todos descr imp dgen qgen sgen rbox pbox' g)"
proof (intro conjI impI)
  assume a: "0 < modifier_of descr imp dgen qgen
      \<and> get_reward_pool rbox (modifier_of descr imp dgen qgen) g = Some (Return rs, g1)"
  show "\<exists>res g2. create_task (Suc n) todos descr imp dgen qgen sgen rbox pbox g
                   = (todos @ [fresh_todo descr imp dgen qgen], Some (Return res, g2))
         \<and> (rs = [] \<longrightarrow> res = None \<and> g2 = g1)
         \<and> (rs \<noteq> [] \<longrightarrow>
              (\<exists>r prs. res = Some r \<and> r \<in> set rs \<and> pool rbox = RandomPool prs \<and> r \<in> set prs))"
  proof (cases "rs = []")
    case True
    with a show ?thesis by (simp add: create_task_reward del: create_task.simps)
  next
    case False
    from a False get_reward_pool_members [of rbox _ g rs g1]
    obtain prs where prs: "pool rbox = RandomPool prs" "set rs \<subseteq> set prs" by blast
    have "rs ! (g1 0 mod length rs) \<in> set rs" using False by simp
    with a False prs show ?thesis
      by (auto simp: create_task_reward simp del: create_task.simps)
  qed
next
  assume "0 < modifier_of descr imp dgen qgen"
  then show "create_task (Suc n) todos descr imp dgen qgen sgen rbox pbox g
          = create_task (Suc 0) todos descr imp dgen qgen sgen rbox pbox' g"
    by (simp only: create_task_reward)
qed

theorem create_task_reward_branch_witness:
  "(\<exists>res g2. create_task (Suc 0) [] ''Main task'' 5 (Some TestDifficultyGenerator)
                (Some TestQualityGenerator) SimpleSuggestionGenerator reward_box punishment_box
                (constant_rng 499)
              = ([] @ [fresh_todo ''Main task'' 5 (Some TestDifficultyGenerator)
                          (Some TestQualityGenerator)], Some (Return res, g2))
      \<and> (\<exists>r prs. res = Some r \<and> r \<in> set [reward2, reward2, reward2]
            \<and> pool reward_box = RandomPool prs \<and> r \<in> set prs))
   \<and> create_task (Suc 0) [] ''Main task'' 5 (Some TestDifficultyGenerator)
        (Some TestQualityGenerator) SimpleSuggestionGenerator reward_box punishment_box
        (constant_rng 499)
      = create_task (Suc 0) [] ''Main task'' 5 (Some TestDifficultyGenerator)
        (Some TestQualityGenerator) SimpleSuggestionGenerator reward_box unreachable_box
        (constant_rng 499)"
proof -
  have hyp: "0 < modifier_of ''Main task'' 5 (Some TestDifficultyGenerator) (Some TestQualityGenerator)
      \<and> get_reward_pool reward_box
          (modifier_of ''Main task'' 5 (Some TestDifficultyGenerator) (Some TestQualityGenerator))
          (constant_rng 499)
        = Some (Return [reward2, reward2, reward2], constant_rng 499)"
    by (simp add: modifier_scenario get_reward_pool_reward_box)
  have filled: "[reward2, reward2, reward2] \<noteq> []" by simp
  from create_task_reward_branch
    [of "''Main task''" 5 "Some TestDifficultyGenerator" "Some TestQualityGenerator" reward_box
       "constant_rng 499" "[reward2, reward2, reward2]" "constant_rng 499" 0 "[]"
       SimpleSuggestionGenerator punishment_box unreachable_box] hyp filled
  show ?thesis by blast
qed



text \<open>
  C7. The list that a call of \<open>create_task\<close> leaves behind, whether the call returns,
  raises or stays caught in the loop of a box, is the list it was given, followed by one new
  Todo for each invocation made, in the order of the invocations, the \<open>i\<close>-th of them for
  the description suggested \<open>i\<close> times: the given list is a prefix of it, and it is longer
  by the number of invocations. An invocation has appended its Todo before it branches: the
  list it passes on to the next invocation, or leaves behind, has the Todo already.
  \<open>add_todo\<close> appends.
\<close>

theorem create_task_appends_one_per_invocation:
  "fst (create_task n todos descr imp dgen qgen sgen rbox pbox g)
     = todos @ map (\<lambda>i. fresh_todo ((sgen ^^ i) descr) imp dgen qgen)
                 [0..<invocations n descr imp dgen qgen sgen g]
   \<and> take (length todos) (fst (create_task n todos descr imp dgen qgen sgen rbox pbox g)) = todos
   \<and> length (fst (create_task n todos descr imp dgen qgen sgen rbox pbox g))
       = length todos + invocations n descr imp dgen qgen sgen g
   \<and> (\<exists>rest. fst (create_task (Suc n) todos descr imp dgen qgen sgen rbox pbox g)
               = todos @ [fresh_todo descr imp dgen qgen] @ rest)
   \<and> add_todo todos t = todos @ [t]"
proof (intro conjI)
  show eq: "fst (create_task n todos descr imp dgen qgen sgen rbox pbox g)
     = todos @ map (\<lambda>i. fresh_todo ((sgen ^^ i) descr) imp dgen qgen)
                 [0..<invocations n descr imp dgen qgen sgen g]"
    by (rule create_task_appends)
  show "take (length todos) (fst (create_task n todos descr imp dgen qgen sgen rbox pbox g)) = todos"
    by (subst eq) simp
  show "length (fst (create_task n todos descr imp dgen qgen sgen rbox pbox g))
       = length todos + invocations n descr imp dgen qgen sgen g"
    by (subst eq) simp
  show "\<exists>rest. fst (create_task (Suc n) todos descr imp dgen qgen sgen rbox pbox g)
               = todos @ [fresh_todo descr imp dgen qgen] @ rest"
    by (rule create_task_first_todo)
  show "add_todo todos t = todos @ [t]" by (simp add: add_todo_def)
qed

theorem create_task_appends_one_per_invocation_witness:
  "fst (create_task (Suc (Suc 0)) [] ''Main task'' 11 None None SimpleSuggestionGenerator
          reward_box punishment_box (constant_rng 9))
     = [fresh_todo ''Main task'' 11 None None, fresh_todo ''Main task (updated)'' 11 None None]
   \<and> create_task (Suc 0) [] ''Main task'' 5 (Some TestDifficultyGenerator)
       (Some TestQualityGenerator) SimpleSuggestionGenerator vault punishment_box (constant_rng 499)
     = ([fresh_todo ''Main task'' 5 (Some TestDifficultyGenerator) (Some TestQualityGenerator)],
        None)"
proof -
  have count: "invocations (Suc (Suc 0)) ''Main task'' 11 None None SimpleSuggestionGenerator
      (constant_rng 9) = Suc (Suc 0)"
    by (simp add: modifier_of_def fresh_todo_def Todo_init_def randint_def constant_rng_def)
  have one: "invocations (Suc 0) ''Main task'' 5 (Some TestDifficultyGenerator)
      (Some TestQualityGenerator) SimpleSuggestionGenerator (constant_rng 499) = Suc 0"
    by (simp add: modifier_scenario)
  have hangs: "snd (create_task (Suc 0) [] ''Main task'' 5 (Some TestDifficultyGenerator)
       (Some TestQualityGenerator) SimpleSuggestionGenerator vault punishment_box
       (constant_rng 499)) = None"
    by (simp add: create_task_reward modifier_scenario get_reward_pool_vault
        del: create_task.simps)
  have two: "map (\<lambda>i. fresh_todo ((SimpleSuggestionGenerator ^^ i) ''Main task'') 11 None None)
               [0..<Suc (Suc 0)]
             = [fresh_todo ''Main task'' 11 None None,
                fresh_todo ''Main task (updated)'' 11 None None]"
    by (simp add: SimpleSuggestionGenerator_def)
  from create_task_appends_one_per_invocation
    [of "Suc (Suc 0)" "[]" "''Main task''" 11 None None SimpleSuggestionGenerator
       reward_box punishment_box "constant_rng 9"]
  have "fst (create_task (Suc (Suc 0)) [] ''Main task'' 11 None None
          SimpleSuggestionGenerator reward_box punishment_box (constant_rng 9))
     = [] @ map (\<lambda>i. fresh_todo ((SimpleSuggestionGenerator ^^ i) ''Main task'') 11 None None)
              [0..<invocations (Suc (Suc 0)) ''Main task'' 11 None None
                     SimpleSuggestionGenerator (constant_rng 9)]"
    by blast
  then have first: "fst (create_task (Suc (Suc 0)) [] ''Main task'' 11 None None
          SimpleSuggestionGenerator reward_box punishment_box (constant_rng 9))
     = [fresh_todo ''Main task'' 11 None None, fresh_todo ''Main task (updated)'' 11 None None]"
    by (simp only: count two append_Nil)
  have single: "map (\<lambda>i. fresh_todo ((SimpleSuggestionGenerator ^^ i) ''Main task'') 5
                       (Some TestDifficultyGenerator) (Some TestQualityGenerator)) [0..<Suc 0]
             = [fresh_todo ''Main task'' 5 (Some TestDifficultyGenerator)
                  (Some TestQualityGenerator)]"
    by simp
  from create_task_appends_one_per_invocation
    [of "Suc 0" "[]" "''Main task''" 5 "Some TestDifficultyGenerator" "Some TestQualityGenerator"
       SimpleSuggestionGenerator vault punishment_box "constant_rng 499"]
  have "fst (create_task (Suc 0) [] ''Main task'' 5 (Some TestDifficultyGenerator)
       (Some TestQualityGenerator) SimpleSuggestionGenerator vault punishment_box
       (constant_rng 499))
     = [] @ map (\<lambda>i. fresh_todo ((SimpleSuggestionGenerator ^^ i) ''Main task'') 5
                       (Some TestDifficultyGenerator) (Some TestQualityGenerator))
              [0..<invocations (Suc 0) ''Main task'' 5 (Some TestDifficultyGenerator)
                     (Some TestQualityGenerator) SimpleSuggestionGenerator (constant_rng 499)]"
    by blast
  then have "fst (create_task (Suc 0) [] ''Main task'' 5 (Some TestDifficultyGenerator)
       (Some TestQualityGenerator) SimpleSuggestionGenerator vault punishment_box
       (constant_rng 499))
     = [fresh_todo ''Main task'' 5 (Some TestDifficultyGenerator) (Some TestQualityGenerator)]"
    by (simp only: one single append_Nil)
  with hangs have second: "create_task (Suc 0) [] ''Main task'' 5 (Some TestDifficultyGenerator)
       (Some TestQualityGenerator) SimpleSuggestionGenerator vault punishment_box (constant_rng 499)
     = ([fresh_todo ''Main task'' 5 (Some TestDifficultyGenerator) (Some TestQualityGenerator)],
        None)"
    by (simp only: prod_eq_iff fst_conv snd_conv simp_thms)
  from first second show ?thesis by blast
qed

end
